theory Spec2Isabelle
  imports Complex_Main "HOL-Library.Word" "HOL-Library.FSet" "HOL-Library.List_Lexorder"
    "HOL-Library.Char_ord"
begin

section \<open>Operation context: cooperative interrupt checks\<close>

text \<open>
  Source: \<^verbatim>\<open>src/mongo/db/operation_context_impl.cpp\<close>.

  The error codes used by the two interrupt checks. \<^verbatim>\<open>ErrorCodes\<close> is declared outside the
  files at hand; only the four codes the checks mention are listed.
\<close>

datatype ErrorCode = OK | Interrupted | InterruptedAtShutdown | ExceededTimeLimit

text \<open>A \<^verbatim>\<open>Status\<close> value: a code and its reason string.\<close>

datatype Status = Status ErrorCode string

definition Status_OK :: Status where
  "Status_OK = Status OK []"

definition isOK :: "Status \<Rightarrow> bool" where
  "isOK s = (case s of Status c _ \<Rightarrow> c = OK)"

definition code :: "Status \<Rightarrow> ErrorCode" where
  "code s = (case s of Status c _ \<Rightarrow> c)"

text \<open>
  The outcome of a \<^verbatim>\<open>void\<close> function that may leave through \<^verbatim>\<open>uasserted(code, msg)\<close>:
  it returns, or it signals a user assertion carrying the code and the message.
\<close>

datatype signal = Returns | Uasserted ErrorCode string

text \<open>
  The data of the \<^verbatim>\<open>checkForInterruptFail\<close> fail point that \<^verbatim>\<open>opShouldFail\<close> reads.
  The third test of \<^verbatim>\<open>opShouldFail\<close> compares a pseudo-random draw with
  \<^verbatim>\<open>max * chance\<close> in double precision; its outcome (\<^verbatim>\<open>next > upperBound\<close>) is an input of
  the model.
\<close>

record failPointInfo =
  fp_conn :: int
  fp_allowNested :: bool
  fp_nextAboveUpperBound :: bool

text \<open>
  What the checks read and write: the process-wide kill-all flag, the lock state, the
  client, its current operation, and the fail point (\<open>None\<close> when the fail point block is
  not entered).
\<close>

record opctx =
  killAllOperations :: bool
  isWriteLocked :: bool
  hasWrittenSinceCheckpoint :: bool
  connectionId :: int
  curopHasParent :: bool
  maxTimeHasExpired :: bool
  killPending :: bool
  checkForInterruptFail :: "failPointInfo option"

text \<open>
  Modelled from the spec: \<^verbatim>\<open>CurOp::kill()\<close> and \<^verbatim>\<open>CurOp::killPending()\<close> are not among the
  files at hand; the spec says that the operation is "marked killed" and that an operation
  "already marked killed" fails the check, so \<open>kill\<close> sets the flag \<open>killPending\<close> reads.
\<close>

definition kill :: "opctx \<Rightarrow> opctx" where
  "kill c = c\<lparr>killPending := True\<rparr>"

definition opShouldFail :: "opctx \<Rightarrow> failPointInfo \<Rightarrow> bool" where
  "opShouldFail c info =
     (if connectionId c \<noteq> fp_conn info then False
      else if \<not> fp_allowNested info \<and> curopHasParent c then False
      else if fp_nextAboveUpperBound info then False
      else True)"

text \<open>The fail point block shared by both checks.\<close>

definition failPointBlock :: "opctx \<Rightarrow> opctx" where
  "failPointBlock c =
     (case checkForInterruptFail c of
        None \<Rightarrow> c
      | Some info \<Rightarrow> if opShouldFail c info then kill c else c)"

definition checkForInterrupt :: "bool \<Rightarrow> opctx \<Rightarrow> opctx \<times> signal" where
  "checkForInterrupt heedMutex c =
     (if heedMutex \<and> isWriteLocked c \<and> hasWrittenSinceCheckpoint c then (c, Returns)
      else if killAllOperations c
        then (c, Uasserted InterruptedAtShutdown ''interrupted at shutdown'')
      else if maxTimeHasExpired c
        then (kill c, Uasserted ExceededTimeLimit ''operation exceeded time limit'')
      else
        (let c' = failPointBlock c in
         if killPending c' then (c', Uasserted Interrupted ''operation was interrupted'')
         else (c', Returns)))"

definition checkForInterruptNoAssert :: "opctx \<Rightarrow> opctx \<times> Status" where
  "checkForInterruptNoAssert c =
     (if killAllOperations c then (c, Status Interrupted ''interrupted at shutdown'')
      else if maxTimeHasExpired c then (kill c, Status Interrupted ''exceeded time limit'')
      else
        (let c' = failPointBlock c in
         if killPending c' then (c', Status Interrupted ''interrupted'')
         else (c', Status_OK)))"

section \<open>WiredTiger key-value engine binding\<close>

text \<open>
  Source: \<^verbatim>\<open>src/mongo/db/storage/wiredtiger/wiredtiger_kv_engine.cpp\<close>.

  The engine itself is an opaque capability. Its connection state is a type parameter
  \<open>'c\<close>, and the calls the binding issues are the fields of \<open>wt_api\<close>: each takes the
  connection state and returns the engine's return code (or, for the size storer's
  \<^verbatim>\<open>storeInto\<close>, the exception it leaves through, if any) with the new connection state.
  The short-lived \<^verbatim>\<open>WiredTigerSession\<close> that every operation opens and closes around its
  calls belongs to these transitions.
\<close>

datatype exn = WriteConflictException | OtherException string

text \<open>How a call can end other than by returning: the process is terminated by a failed
  invariant on an engine return code, an exception leaves the function, or a null
  \<^verbatim>\<open>scoped_ptr\<close> is dereferenced.\<close>

datatype failure = InvariantFailed int | Uncaught exn | NullDereference

text \<open>The size storer's in-memory entries: resource uri to (numRecords, dataSize).\<close>

type_synonym sizeStorer = "string \<rightharpoonup> (int \<times> int)"

record 'c wt_api =
  wt_drop :: "'c \<Rightarrow> string \<Rightarrow> string \<Rightarrow> int \<times> 'c"
  wt_begin_transaction :: "'c \<Rightarrow> string \<Rightarrow> int \<times> 'c"
  wt_commit_transaction :: "'c \<Rightarrow> int \<times> 'c"
  wt_checkpoint :: "'c \<Rightarrow> int \<times> 'c"
  storeInto :: "'c \<Rightarrow> sizeStorer \<Rightarrow> string \<Rightarrow> exn option \<times> 'c"

text \<open>\<^verbatim>\<open>EBUSY\<close> comes from the platform's \<^verbatim>\<open>errno.h\<close>; it is 16 on Linux, macOS and Windows.\<close>

definition EBUSY :: int where
  "EBUSY = 16"

text \<open>
  Modelled from the spec: the macro \<^verbatim>\<open>invariantWTOK\<close> is defined outside the files at
  hand; the spec calls an unexpected engine return code a fatal invariant violation that
  terminates the process, so any non-zero code is a failure.
\<close>

definition invariantWTOK :: "int \<Rightarrow> failure + unit" where
  "invariantWTOK rc = (if rc = 0 then Inr () else Inl (InvariantFailed rc))"

text \<open>
  The members of \<^verbatim>\<open>WiredTigerKVEngine\<close> that the operations below touch. The declaration
  of \<^verbatim>\<open>_epoch\<close> is outside the files at hand, so the type of the counter is a parameter
  \<open>'n\<close>, which the operations take to be a machine word of any width. \<open>sessionPool\<close> is the idle pool of the session cache; \<open>sizeStorer\<close> is \<open>None\<close> when the
  \<^verbatim>\<open>scoped_ptr\<close> is null.
\<close>

record ('c, 'n) kv_engine =
  conn :: 'c
  durable :: bool
  epoch :: 'n
  identToDrop :: "string fset"
  sessionPool :: "nat list"
  sizeStorer :: "sizeStorer option"
  sizeStorerUri :: string

text \<open>
  Modelled from the spec: \<^verbatim>\<open>WiredTigerSessionCache::closeAll\<close> is not among the files at
  hand; the spec says it force-closes every currently idle session and leaves checked-out
  sessions alone, so the idle pool becomes empty.
\<close>

definition closeAll :: "nat list \<Rightarrow> nat list" where
  "closeAll pool = []"

text \<open>
  Modelled from the spec: \<^verbatim>\<open>WiredTigerSizeStorer::store\<close> is not among the files at hand;
  the spec says it updates the in-memory entry and does not persist.
\<close>

definition store :: "sizeStorer \<Rightarrow> string \<Rightarrow> int \<Rightarrow> int \<Rightarrow> sizeStorer" where
  "store ss uri numRecords dataSize = ss(uri \<mapsto> (numRecords, dataSize))"

text \<open>\<^verbatim>\<open>_uri\<close>: the resource name of an ident.\<close>

definition uri_of :: "string \<Rightarrow> string" where
  "uri_of ident = ''table:'' @ ident"

subsection \<open>Opening the engine: cache budget and configuration string\<close>

text \<open>
  The constructor computes the budget in \<^verbatim>\<open>double\<close>. A double is modelled as the real it
  denotes, and every arithmetic operation rounds its exact result to the nearest double:
  a significand of 53 bits, ties to the even significand. The exponent range is not
  modelled (the values below are far from its ends).
\<close>

definition double_exponent :: "real \<Rightarrow> int" where
  "double_exponent x = \<lfloor>log 2 \<bar>x\<bar>\<rfloor> - 52"

definition round_half_even :: "real \<Rightarrow> int" where
  "round_half_even t =
     (let f = \<lfloor>t\<rfloor>; d = t - of_int f
      in if d < 1 / 2 then f else if 1 / 2 < d then f + 1 else if even f then f else f + 1)"

definition to_double :: "real \<Rightarrow> real" where
  "to_double x =
     (if x = 0 then 0
      else of_int (round_half_even (x / 2 powr of_int (double_exponent x)))
             * 2 powr of_int (double_exponent x))"

text \<open>
  \<^verbatim>\<open>static_cast<int>\<close> of a double truncates toward zero; \<^verbatim>\<open>int\<close> has 32 bits. When the
  truncated value is outside the range of \<^verbatim>\<open>int\<close>, C++ leaves the conversion undefined;
  the model takes what the conversion instruction of x86-64 delivers there, the most
  negative \<^verbatim>\<open>int\<close>.
\<close>

definition static_cast_int :: "real \<Rightarrow> int" where
  "static_cast_int x =
     (let t = (if 0 \<le> x then \<lfloor>x\<rfloor> else \<lceil>x\<rceil>)
      in if - (2 ^ 31) \<le> t \<and> t < 2 ^ 31 then t else - (2 ^ 31))"

text \<open>The cache budget of the constructor; \<open>pageSize\<close> and \<open>numPages\<close> are the doubles read
  from the system details.\<close>

definition cacheSizeGB :: "real \<Rightarrow> real \<Rightarrow> int" where
  "cacheSizeGB pageSize numPages =
     (if pageSize > 0 \<and> numPages > 0 then
        (let totalBytes = to_double (numPages * pageSize);
             cacheBytes = to_double (totalBytes / 10);
             c = static_cast_int (to_double (cacheBytes / (1024 * 1024 * 1024)))
         in if c < 1 then 1 else c)
      else 1)"

text \<open>\<^verbatim>\<open>operator<<\<close> on an \<^verbatim>\<open>int\<close>: its decimal digits, with a minus sign when negative.\<close>

fun show_nat :: "nat \<Rightarrow> string" where
  "show_nat n =
     (if n < 10 then [''0123456789'' ! n]
      else show_nat (n div 10) @ [''0123456789'' ! (n mod 10)])"

definition show_int :: "int \<Rightarrow> string" where
  "show_int i = (if i < 0 then CHR ''-'' # show_nat (nat (- i)) else show_nat (nat i))"

text \<open>The string built in the \<^verbatim>\<open>stringstream\<close> and passed to \<^verbatim>\<open>wiredtiger_open\<close>.\<close>

definition open_config :: "int \<Rightarrow> string \<Rightarrow> bool \<Rightarrow> string" where
  "open_config cacheGB extraOpenOptions dur =
     ''create,''
     @ ''cache_size='' @ show_int cacheGB @ ''G,''
     @ ''session_max=20000,''
     @ ''extensions=[local=(entry=index_collator_extension)],''
     @ ''statistics=(all),''
     @ (if dur then ''log=(enabled=true,archive=true,path=journal),'' else [])
     @ ''checkpoint=(wait=60,log_size=2GB),''
     @ extraOpenOptions"

text \<open>The configuration of a constructor call: \<open>path\<close> names the directory and does not
  enter the string.\<close>

definition constructor_config ::
  "real \<Rightarrow> real \<Rightarrow> string \<Rightarrow> string \<Rightarrow> bool \<Rightarrow> string" where
  "constructor_config pageSize numPages path extraOpenOptions dur =
     open_config (cacheSizeGB pageSize numPages) extraOpenOptions dur"

subsection \<open>Size storer flush\<close>

definition syncSizeInfo ::
  "'c wt_api \<Rightarrow> ('c, 'n) kv_engine \<Rightarrow> failure + ('c, 'n) kv_engine" where
  "syncSizeInfo api e =
     (case sizeStorer e of
        None \<Rightarrow> Inr e
      | Some ss \<Rightarrow>
          (let (rc1, c1) = wt_begin_transaction api (conn e) ''sync=true'' in
           case invariantWTOK rc1 of
             Inl f \<Rightarrow> Inl f
           | Inr _ \<Rightarrow>
               (case storeInto api c1 ss (sizeStorerUri e) of
                  (Some x, c2) \<Rightarrow>
                    (case x of
                       WriteConflictException \<Rightarrow> Inr (e\<lparr>conn := c2\<rparr>)
                     | OtherException _ \<Rightarrow> Inl (Uncaught x))
                | (None, c2) \<Rightarrow>
                    (let (rc3, c3) = wt_commit_transaction api c2 in
                     case invariantWTOK rc3 of
                       Inl f \<Rightarrow> Inl f
                     | Inr _ \<Rightarrow> Inr (e\<lparr>conn := c3\<rparr>)))))"

text \<open>The record store handed to \<^verbatim>\<open>okToRename\<close>, as far as it is consulted.\<close>

record recordStore =
  numRecords :: int
  dataSize :: int

definition okToRename ::
  "'c wt_api \<Rightarrow> string \<Rightarrow> string \<Rightarrow> string \<Rightarrow> recordStore \<Rightarrow> ('c, 'n) kv_engine
     \<Rightarrow> failure + (Status \<times> ('c, 'n) kv_engine)" where
  "okToRename api fromNS toNS ident originalRecordStore e =
     (case sizeStorer e of
        None \<Rightarrow> Inl NullDereference
      | Some ss \<Rightarrow>
          (let e1 = e\<lparr>sizeStorer := Some (store ss (uri_of ident)
                         (numRecords originalRecordStore) (dataSize originalRecordStore))\<rparr>
           in case syncSizeInfo api e1 of
                Inl f \<Rightarrow> Inl f
              | Inr e2 \<Rightarrow> Inr (Status_OK, e2)))"

definition flushAllFiles ::
  "'c wt_api \<Rightarrow> bool \<Rightarrow> ('c, 'n) kv_engine \<Rightarrow> failure + (int \<times> ('c, 'n) kv_engine)" where
  "flushAllFiles api sync e =
     (case syncSizeInfo api e of
        Inl f \<Rightarrow> Inl f
      | Inr e1 \<Rightarrow>
          (let (rc, c') = wt_checkpoint api (conn e1) in
           case invariantWTOK rc of
             Inl f \<Rightarrow> Inl f
           | Inr _ \<Rightarrow> Inr (1, e1\<lparr>conn := c'\<rparr>)))"

subsection \<open>Creating the record store object\<close>

record CollectionOptions =
  capped :: bool
  cappedSize :: int
  cappedMaxDocs :: int

text \<open>The arguments \<^verbatim>\<open>getRecordStore\<close> hands to the constructor of
  \<^verbatim>\<open>WiredTigerRecordStore\<close>; the callback is \<open>None\<close> for \<^verbatim>\<open>NULL\<close>.\<close>

record WiredTigerRecordStore =
  rs_ns :: string
  rs_uri :: string
  rs_isCapped :: bool
  rs_cappedMaxSize :: int
  rs_cappedMaxDocs :: int
  rs_cappedDeleteCallback :: "nat option"
  rs_sizeStorer :: "sizeStorer option"

definition getRecordStore ::
  "string \<Rightarrow> string \<Rightarrow> CollectionOptions \<Rightarrow> ('c, 'n) kv_engine \<Rightarrow> WiredTigerRecordStore" where
  "getRecordStore ns ident options e =
     (if capped options then
        \<lparr>rs_ns = ns, rs_uri = uri_of ident, rs_isCapped = capped options,
         rs_cappedMaxSize = (if cappedSize options \<noteq> 0 then cappedSize options else 4096),
         rs_cappedMaxDocs = (if cappedMaxDocs options \<noteq> 0 then cappedMaxDocs options else - 1),
         rs_cappedDeleteCallback = None, rs_sizeStorer = sizeStorer e\<rparr>
      else
        \<lparr>rs_ns = ns, rs_uri = uri_of ident, rs_isCapped = False,
         rs_cappedMaxSize = - 1, rs_cappedMaxDocs = - 1,
         rs_cappedDeleteCallback = None, rs_sizeStorer = sizeStorer e\<rparr>)"

subsection \<open>Dropping resources and the deferred-drop queue\<close>

text \<open>\<^verbatim>\<open>_drop\<close>: one forced drop; a busy resource is queued.\<close>

definition drop_ident ::
  "'c wt_api \<Rightarrow> string \<Rightarrow> ('c, 'w::len word) kv_engine \<Rightarrow> failure + (bool \<times> ('c, 'w word) kv_engine)" where
  "drop_ident api ident e =
     (let uri = uri_of ident;
          (ret, c') = wt_drop api (conn e) uri ''force'';
          e1 = e\<lparr>conn := c'\<rparr>
      in if ret = 0 then Inr (True, e1)
         else if ret = EBUSY then
           Inr (False, e1\<lparr>identToDrop := finsert uri (identToDrop e1),
                          epoch := epoch e1 + 1,
                          sessionPool := closeAll (sessionPool e1)\<rparr>)
         else (case invariantWTOK ret of
                 Inl f \<Rightarrow> Inl f
               | Inr _ \<Rightarrow> Inr (False, e1)))"

definition dropRecordStore ::
  "'c wt_api \<Rightarrow> string \<Rightarrow> ('c, 'w::len word) kv_engine \<Rightarrow> failure + (Status \<times> ('c, 'w word) kv_engine)" where
  "dropRecordStore api ident e =
     (case drop_ident api ident e of
        Inl f \<Rightarrow> Inl f
      | Inr (_, e') \<Rightarrow> Inr (Status_OK, e'))"

definition dropSortedDataInterface ::
  "'c wt_api \<Rightarrow> string \<Rightarrow> ('c, 'w::len word) kv_engine \<Rightarrow> failure + (Status \<times> ('c, 'w word) kv_engine)" where
  "dropSortedDataInterface api ident e =
     (case drop_ident api ident e of
        Inl f \<Rightarrow> Inl f
      | Inr (_, e') \<Rightarrow> Inr (Status_OK, e'))"

text \<open>
  The first loop of \<^verbatim>\<open>dropAllQueued\<close>, over the copy \<^verbatim>\<open>mine\<close> in the order of the
  \<^verbatim>\<open>std::set\<close>: it threads the connection state and collects \<^verbatim>\<open>deleted\<close>.
\<close>

fun dropAllQueued_drops ::
  "'c wt_api \<Rightarrow> string list \<Rightarrow> 'c \<Rightarrow> string fset \<Rightarrow> failure + ('c \<times> string fset)" where
  "dropAllQueued_drops api [] c deleted = Inr (c, deleted)"
| "dropAllQueued_drops api (uri # rest) c deleted =
     (let (ret, c') = wt_drop api c uri ''force'' in
      if ret = 0 then dropAllQueued_drops api rest c' (finsert uri deleted)
      else if ret = EBUSY then dropAllQueued_drops api rest c' deleted
      else (case invariantWTOK ret of
              Inl f \<Rightarrow> Inl f
            | Inr _ \<Rightarrow> dropAllQueued_drops api rest c' deleted))"

text \<open>The second loop: every element of \<^verbatim>\<open>deleted\<close> is erased from the pending set.\<close>

fun dropAllQueued_erase :: "string list \<Rightarrow> string fset \<Rightarrow> string fset" where
  "dropAllQueued_erase [] pending = pending"
| "dropAllQueued_erase (uri # rest) pending = dropAllQueued_erase rest (pending |-| {|uri|})"

definition dropAllQueued ::
  "'c wt_api \<Rightarrow> ('c, 'n) kv_engine \<Rightarrow> failure + ('c, 'n) kv_engine" where
  "dropAllQueued api e =
     (let mine = identToDrop e in
      case dropAllQueued_drops api (sorted_list_of_fset mine) (conn e) {||} of
        Inl f \<Rightarrow> Inl f
      | Inr (c', deleted) \<Rightarrow>
          Inr (e\<lparr>conn := c',
                 identToDrop := dropAllQueued_erase (sorted_list_of_fset deleted) (identToDrop e)\<rparr>))"

section \<open>Notions of the specification\<close>

text \<open>The fail point "fires" when its block is entered and \<open>opShouldFail\<close> answers yes.\<close>

definition failPointFires :: "opctx \<Rightarrow> bool" where
  "failPointFires c =
     (case checkForInterruptFail c of None \<Rightarrow> False | Some info \<Rightarrow> opShouldFail c info)"

text \<open>The exception of the interrupt check: a write-locked operation that has written.\<close>

definition suppressed :: "bool \<Rightarrow> opctx \<Rightarrow> bool" where
  "suppressed heedMutex c \<longleftrightarrow> heedMutex \<and> isWriteLocked c \<and> hasWrittenSinceCheckpoint c"

text \<open>
  The answers of the engine when a forced drop of each name of a list is attempted in
  turn, from a given connection state: the names with their return codes, and the
  connection state after the last attempt.
\<close>

fun drop_each :: "'c wt_api \<Rightarrow> 'c \<Rightarrow> string list \<Rightarrow> (string \<times> int) list \<times> 'c" where
  "drop_each api c [] = ([], c)"
| "drop_each api c (uri # rest) =
     (let (ret, c') = wt_drop api c uri ''force'';
          (rs, c'') = drop_each api c' rest
      in ((uri, ret) # rs, c''))"

text \<open>The entries of a comma-separated configuration, each followed by its comma.\<close>

definition comma_separated :: "string list \<Rightarrow> string" where
  "comma_separated entries = concat (map (\<lambda>s. s @ '','') entries)"

section \<open>A small engine and concrete states\<close>

text \<open>
  A concrete engine for running the operations: its state lists the resources that
  exist, the resources an open cursor still references, and the persisted size table;
  a flag makes the next size-storer write meet a write conflict. A forced drop of a
  referenced resource answers \<open>EBUSY\<close>, of a resource named \<open>table:corrupt\<close> answers 5.
\<close>

record toy_conn =
  tables :: "string list"
  referenced :: "string list"
  persisted :: sizeStorer
  conflicting :: bool
  checkpoints :: nat

definition toy_api :: "toy_conn wt_api" where
  "toy_api =
     \<lparr>wt_drop = (\<lambda>c uri cfg.
         if uri = ''table:corrupt'' then (5, c)
         else if uri \<in> set (referenced c) then (EBUSY, c)
         else (0, c\<lparr>tables := removeAll uri (tables c)\<rparr>)),
      wt_begin_transaction = (\<lambda>c cfg. (0, c)),
      wt_commit_transaction = (\<lambda>c. (0, c)),
      wt_checkpoint = (\<lambda>c. (0, c\<lparr>checkpoints := Suc (checkpoints c)\<rparr>)),
      storeInto = (\<lambda>c ss uri.
         if conflicting c then (Some WriteConflictException, c)
         else (None, c\<lparr>persisted := ss\<rparr>))\<rparr>"

definition toy_conn0 :: toy_conn where
  "toy_conn0 =
     \<lparr>tables = [''table:r1'', ''table:r2'', ''table:sizeStorer''],
      referenced = [''table:r1''],
      persisted = Map.empty,
      conflicting = False,
      checkpoints = 0\<rparr>"

definition toy_engine0 :: "(toy_conn, 32 word) kv_engine" where
  "toy_engine0 =
     \<lparr>conn = toy_conn0, durable = True, epoch = 7,
      identToDrop = {||}, sessionPool = [1, 2, 3],
      sizeStorer = Some Map.empty, sizeStorerUri = ''table:sizeStorer''\<rparr>"

text \<open>The engine with two drops queued, and with a queued name the engine fails on.\<close>

definition toy_engine_queued :: "(toy_conn, 32 word) kv_engine" where
  "toy_engine_queued = toy_engine0\<lparr>identToDrop := {|''table:r2'', ''table:r1''|}\<rparr>"

definition toy_engine_corrupt :: "(toy_conn, 32 word) kv_engine" where
  "toy_engine_corrupt = toy_engine0\<lparr>identToDrop := {|''table:r2'', ''table:corrupt''|}\<rparr>"

text \<open>An operation with every interrupt condition raised at once, on connection 17.\<close>

definition op_all_raised :: opctx where
  "op_all_raised =
     \<lparr>killAllOperations = True, isWriteLocked = True, hasWrittenSinceCheckpoint = True,
      connectionId = 17, curopHasParent = False, maxTimeHasExpired = True,
      killPending = True,
      checkForInterruptFail =
        Some \<lparr>fp_conn = 17, fp_allowNested = True, fp_nextAboveUpperBound = False\<rparr>\<rparr>"

text \<open>A quiet operation: nothing raised, fail point off.\<close>

definition op_quiet :: opctx where
  "op_quiet =
     \<lparr>killAllOperations = False, isWriteLocked = False, hasWrittenSinceCheckpoint = False,
      connectionId = 17, curopHasParent = False, maxTimeHasExpired = False,
      killPending = False, checkForInterruptFail = None\<rparr>"

section \<open>Properties\<close>

lemma failPointBlock_eq:
  "failPointBlock c = (if failPointFires c then kill c else c)"
  by (simp add: failPointBlock_def failPointFires_def split: option.split)

lemma killPending_failPointBlock:
  "killPending (failPointBlock c) \<longleftrightarrow> failPointFires c \<or> killPending c"
  by (simp add: failPointBlock_eq kill_def)

subsection \<open>Interrupt checks\<close>

text \<open>
  Claim C2. \<open>checkForInterrupt\<close> looks at its conditions in this order: the process-wide
  kill-all flag (signals \<open>InterruptedAtShutdown\<close>, the operation is left as it was), then
  the expired deadline (marks the operation killed and signals \<open>ExceededTimeLimit\<close>), then
  the fail point (marks the operation killed when it fires), then a pending kill (signals
  \<open>Interrupted\<close>). An earlier condition wins over every later one. When \<open>heedMutex\<close> is
  true and the operation is write-locked and has written since the last checkpoint, the
  call returns without a signal and leaves the operation untouched, whatever the
  shutdown flag, the deadline, the fail point and the kill flag are.
\<close>

theorem checkForInterrupt_order:
  "(suppressed heedMutex c \<longrightarrow> checkForInterrupt heedMutex c = (c, Returns)) \<and>
   (\<not> suppressed heedMutex c \<and> killAllOperations c \<longrightarrow>
      checkForInterrupt heedMutex c =
        (c, Uasserted InterruptedAtShutdown ''interrupted at shutdown'')) \<and>
   (\<not> suppressed heedMutex c \<and> \<not> killAllOperations c \<and> maxTimeHasExpired c \<longrightarrow>
      checkForInterrupt heedMutex c =
        (kill c, Uasserted ExceededTimeLimit ''operation exceeded time limit'')) \<and>
   (\<not> suppressed heedMutex c \<and> \<not> killAllOperations c \<and> \<not> maxTimeHasExpired c
      \<and> failPointFires c \<longrightarrow>
      checkForInterrupt heedMutex c =
        (kill c, Uasserted Interrupted ''operation was interrupted'')) \<and>
   (\<not> suppressed heedMutex c \<and> \<not> killAllOperations c \<and> \<not> maxTimeHasExpired c
      \<and> \<not> failPointFires c \<and> killPending c \<longrightarrow>
      checkForInterrupt heedMutex c =
        (c, Uasserted Interrupted ''operation was interrupted'')) \<and>
   (\<not> suppressed heedMutex c \<and> \<not> killAllOperations c \<and> \<not> maxTimeHasExpired c
      \<and> \<not> failPointFires c \<and> \<not> killPending c \<longrightarrow>
      checkForInterrupt heedMutex c = (c, Returns))"
  by (simp add: checkForInterrupt_def suppressed_def failPointBlock_eq kill_def)

text \<open>The six cases of C2 at concrete operations.\<close>

theorem checkForInterrupt_order_witness:
  "suppressed True op_all_raised
   \<and> checkForInterrupt True op_all_raised = (op_all_raised, Returns)
   \<and> \<not> suppressed False op_all_raised \<and> killAllOperations op_all_raised
   \<and> checkForInterrupt False op_all_raised =
       (op_all_raised, Uasserted InterruptedAtShutdown ''interrupted at shutdown'')
   \<and> \<not> suppressed True (op_all_raised\<lparr>killAllOperations := False, isWriteLocked := False\<rparr>)
   \<and> checkForInterrupt True (op_all_raised\<lparr>killAllOperations := False, isWriteLocked := False\<rparr>) =
       (op_all_raised\<lparr>killAllOperations := False, isWriteLocked := False\<rparr>,
        Uasserted ExceededTimeLimit ''operation exceeded time limit'')
   \<and> \<not> failPointFires op_quiet \<and> \<not> killPending op_quiet
   \<and> checkForInterrupt True op_quiet = (op_quiet, Returns)
   \<and> failPointFires (op_quiet\<lparr>checkForInterruptFail := checkForInterruptFail op_all_raised\<rparr>)
   \<and> checkForInterrupt True (op_quiet\<lparr>checkForInterruptFail := checkForInterruptFail op_all_raised\<rparr>) =
       (op_quiet\<lparr>checkForInterruptFail := checkForInterruptFail op_all_raised, killPending := True\<rparr>,
        Uasserted Interrupted ''operation was interrupted'')
   \<and> checkForInterrupt True (op_quiet\<lparr>killPending := True\<rparr>) =
       (op_quiet\<lparr>killPending := True\<rparr>, Uasserted Interrupted ''operation was interrupted'')"
  using checkForInterrupt_order [of True op_all_raised]
    checkForInterrupt_order [of False op_all_raised]
    checkForInterrupt_order [of True "op_all_raised\<lparr>killAllOperations := False, isWriteLocked := False\<rparr>"]
    checkForInterrupt_order [of True op_quiet]
    checkForInterrupt_order [of True "op_quiet\<lparr>checkForInterruptFail := checkForInterruptFail op_all_raised\<rparr>"]
    checkForInterrupt_order [of True "op_quiet\<lparr>killPending := True\<rparr>"]
  by (simp add: suppressed_def op_all_raised_def op_quiet_def failPointFires_def opShouldFail_def kill_def)

text \<open>
  Claim C4 says that \<open>checkForInterruptNoAssert\<close> classifies every condition as
  \<open>checkForInterrupt\<close> does. At a raised shutdown flag \<open>checkForInterrupt\<close> signals
  \<open>InterruptedAtShutdown\<close> while the non-throwing variant returns \<open>Interrupted\<close>; at an
  expired deadline the codes are \<open>ExceededTimeLimit\<close> and \<open>Interrupted\<close>; and for a
  write-locked operation that has written, \<open>checkForInterrupt\<close> with \<open>heedMutex\<close> returns
  quietly while the variant returns a failure. The source marks the variant with the
  note \<^verbatim>\<open>TODO(spencer): Unify error codes and implementation with checkForInterrupt()\<close>.
\<close>

theorem checkForInterruptNoAssert_codes_differ:
  "checkForInterrupt False (op_quiet\<lparr>killAllOperations := True\<rparr>) =
     (op_quiet\<lparr>killAllOperations := True\<rparr>,
      Uasserted InterruptedAtShutdown ''interrupted at shutdown'')
   \<and> checkForInterruptNoAssert (op_quiet\<lparr>killAllOperations := True\<rparr>) =
     (op_quiet\<lparr>killAllOperations := True\<rparr>, Status Interrupted ''interrupted at shutdown'')
   \<and> checkForInterrupt False (op_quiet\<lparr>maxTimeHasExpired := True\<rparr>) =
     (op_quiet\<lparr>maxTimeHasExpired := True, killPending := True\<rparr>,
      Uasserted ExceededTimeLimit ''operation exceeded time limit'')
   \<and> checkForInterruptNoAssert (op_quiet\<lparr>maxTimeHasExpired := True\<rparr>) =
     (op_quiet\<lparr>maxTimeHasExpired := True, killPending := True\<rparr>,
      Status Interrupted ''exceeded time limit'')
   \<and> checkForInterrupt True op_all_raised = (op_all_raised, Returns)
   \<and> checkForInterruptNoAssert op_all_raised =
     (op_all_raised, Status Interrupted ''interrupted at shutdown'')"
  by (simp add: checkForInterrupt_def checkForInterruptNoAssert_def op_quiet_def
      op_all_raised_def kill_def)

text \<open>
  What the two checks do share: against \<open>checkForInterrupt\<close> without \<open>heedMutex\<close>, the
  variant leaves the operation in the same state and fails exactly when the other
  signals; its failures all carry the code \<open>Interrupted\<close>.
\<close>

lemma checkForInterruptNoAssert_agrees:
  "fst (checkForInterruptNoAssert c) = fst (checkForInterrupt False c)
   \<and> (isOK (snd (checkForInterruptNoAssert c)) \<longleftrightarrow> snd (checkForInterrupt False c) = Returns)
   \<and> (\<not> isOK (snd (checkForInterruptNoAssert c)) \<longrightarrow> code (snd (checkForInterruptNoAssert c)) = Interrupted)"
  by (simp add: checkForInterrupt_def checkForInterruptNoAssert_def isOK_def code_def Status_OK_def Let_def)

subsection \<open>Rounding to double\<close>

text \<open>
  Facts about \<open>to_double\<close>: a rounded value has a significand between \<open>2^52\<close> and \<open>2^53\<close>;
  such values, and whole numbers below \<open>2^53\<close>, are doubles; dividing a double by \<open>2^30\<close>
  is exact; below \<open>2^50\<close> the rounding error is at most \<open>1/16\<close>.
\<close>

lemma round_half_even_of_int: "round_half_even (of_int m) = m"
  by (simp add: round_half_even_def)

lemma round_half_even_error: "\<bar>of_int (round_half_even t) - t\<bar> \<le> 1 / 2"
proof -
  have "of_int \<lfloor>t\<rfloor> \<le> t" "t < of_int \<lfloor>t\<rfloor> + 1" by linarith+
  then show ?thesis
    by (auto simp add: round_half_even_def Let_def)
qed

lemma round_half_even_lower: "of_int a \<le> t \<Longrightarrow> a \<le> round_half_even t"
proof -
  assume "of_int a \<le> t"
  then have "a \<le> \<lfloor>t\<rfloor>" by (simp add: le_floor_iff)
  then show ?thesis by (auto simp add: round_half_even_def Let_def)
qed

lemma round_half_even_upper: "t \<le> of_int b \<Longrightarrow> round_half_even t \<le> b"
proof (cases "t = of_int b")
  case True
  then show ?thesis by (simp add: round_half_even_of_int)
next
  case False
  assume "t \<le> of_int b"
  with False have "t < of_int b" by simp
  then have "\<lfloor>t\<rfloor> < b" by (simp add: floor_less_iff)
  then show ?thesis by (auto simp add: round_half_even_def Let_def)
qed

lemma scaled_significand:
  assumes "0 < x"
  shows "2 ^ 52 \<le> x / 2 powr of_int (double_exponent x)"
    and "x / 2 powr of_int (double_exponent x) < 2 ^ 53"
proof -
  define k where "k = \<lfloor>log 2 x\<rfloor>"
  have e: "double_exponent x = k - 52"
    using assms by (simp add: double_exponent_def k_def)
  from assms have b: "2 powr of_int k \<le> x" "x < 2 powr of_int (k + 1)"
    using floor_log_eq_powr_iff [of x 2 k] by (simp_all add: k_def)
  have p: "2 powr of_int k = 2 powr of_int (k - 52) * (2 ^ 52 :: real)"
  proof -
    have "2 powr of_int k = (2 :: real) powr (of_int (k - 52) + 52)" by simp
    also have "\<dots> = 2 powr of_int (k - 52) * 2 powr 52" by (rule powr_add)
    finally show ?thesis by simp
  qed
  have q: "2 powr of_int (k + 1) = 2 powr of_int (k - 52) * (2 ^ 53 :: real)"
  proof -
    have "2 powr of_int (k + 1) = (2 :: real) powr (of_int (k - 52) + 53)"
      by (simp add: add.commute)
    also have "\<dots> = 2 powr of_int (k - 52) * 2 powr 53" by (rule powr_add)
    finally show ?thesis by simp
  qed
  have pos: "0 < (2 :: real) powr of_int (k - 52)" by simp
  from b(1) p pos show "2 ^ 52 \<le> x / 2 powr of_int (double_exponent x)"
    by (simp add: e le_divide_eq mult.commute)
  from b(2) q pos show "x / 2 powr of_int (double_exponent x) < 2 ^ 53"
    by (simp add: e divide_less_eq mult.commute)
qed


lemma to_double_significand:
  assumes "0 < x"
  obtains m where "to_double x = of_int m * 2 powr of_int (double_exponent x)"
    and "2 ^ 52 \<le> m" and "m \<le> 2 ^ 53"
proof
  let ?t = "x / 2 powr of_int (double_exponent x)"
  show "to_double x = of_int (round_half_even ?t) * 2 powr of_int (double_exponent x)"
    using assms by (simp add: to_double_def)
  have "of_int (2 ^ 52) \<le> ?t" using scaled_significand(1) [OF assms] by simp
  then show "2 ^ 52 \<le> round_half_even ?t" by (rule round_half_even_lower)
  have "?t \<le> of_int (2 ^ 53)" using scaled_significand(2) [OF assms] by simp
  then show "round_half_even ?t \<le> 2 ^ 53" by (rule round_half_even_upper)
qed

lemma double_exponent_scaled:
  assumes "2 ^ 52 \<le> m" "m < 2 ^ 53"
  shows "double_exponent (of_int m * 2 powr of_int j) = j"
proof -
  let ?z = "of_int m * 2 powr of_int j :: real"
  from assms have mpos: "0 < (of_int m :: real)" by simp
  then have zpos: "0 < ?z" by simp
  have lo: "2 powr of_int (j + 52) \<le> ?z"
  proof -
    have "2 powr of_int (j + 52) = (2 :: real) powr (52 + of_int j)" by (simp add: add.commute)
    also have "\<dots> = 2 powr 52 * 2 powr of_int j" by (rule powr_add)
    also have "\<dots> = 2 ^ 52 * 2 powr of_int j" by simp
    also have "\<dots> \<le> of_int m * 2 powr of_int j"
    proof (rule mult_right_mono)
      from assms(1) have "(of_int (2 ^ 52) :: real) \<le> of_int m" by (simp only: of_int_le_iff)
      then show "(2 ^ 52 :: real) \<le> of_int m" by simp
    qed simp
    finally show ?thesis .
  qed
  have hi: "?z < 2 powr of_int (j + 52 + 1)"
  proof -
    from assms(2) have "(of_int m :: real) < of_int (2 ^ 53)" by (simp only: of_int_less_iff)
    then have "(of_int m :: real) < 2 ^ 53" by simp
    then have "?z < 2 ^ 53 * 2 powr of_int j"
      by (rule mult_strict_right_mono) simp
    also have "\<dots> = 2 powr 53 * 2 powr of_int j" by simp
    also have "\<dots> = (2 :: real) powr (53 + of_int j)" by (rule powr_add [symmetric])
    also have "\<dots> = 2 powr of_int (j + 52 + 1)" by (simp add: add.commute)
    finally show ?thesis .
  qed
  from lo hi zpos have "\<lfloor>log 2 ?z\<rfloor> = j + 52"
    using floor_log_eq_powr_iff [of ?z 2 "j + 52"] by simp
  with zpos show ?thesis
    by (simp add: double_exponent_def abs_of_pos)
qed

lemma to_double_normal:
  assumes "2 ^ 52 \<le> m" "m < 2 ^ 53"
  shows "to_double (of_int m * 2 powr of_int j) = of_int m * 2 powr of_int j"
proof -
  from assms have nz: "(of_int m :: real) \<noteq> 0" by auto
  have "double_exponent (of_int m * 2 powr of_int j) = j"
    using assms by (rule double_exponent_scaled)
  with nz show ?thesis
    by (simp add: to_double_def round_half_even_of_int)
qed

lemma to_double_representable:
  assumes "2 ^ 52 \<le> m" "m \<le> 2 ^ 53"
  shows "to_double (of_int m * 2 powr of_int j) = of_int m * 2 powr of_int j"
proof (cases "m = 2 ^ 53")
  case False
  with assms have "m < 2 ^ 53" by simp
  with assms(1) show ?thesis by (rule to_double_normal)
next
  case True
  define h :: int where "h = 2 ^ 52"
  have h: "2 ^ 52 \<le> h" "h < 2 ^ 53" by (simp_all add: h_def)
  have "(2 :: real) powr of_int (j + 1) = 2 powr (1 + of_int j)" by (simp add: add.commute)
  also have "\<dots> = 2 powr 1 * 2 powr of_int j" by (rule powr_add)
  finally have "of_int h * (2 :: real) powr of_int (j + 1) = of_int m * 2 powr of_int j"
    using True by (simp add: h_def)
  with to_double_normal [OF h, of "j + 1"] show ?thesis by simp
qed

lemma to_double_div_pow2:
  assumes "0 < x"
  shows "to_double (to_double x / 2 ^ 30) = to_double x / 2 ^ 30"
proof -
  from to_double_significand [OF assms]
  obtain m where y: "to_double x = of_int m * 2 powr of_int (double_exponent x)"
    and m: "2 ^ 52 \<le> m" "m \<le> 2 ^ 53" by blast
  have "2 powr of_int (double_exponent x - 30) =
      2 powr of_int (double_exponent x) / (2 ^ 30 :: real)"
  proof -
    have "(2 :: real) powr of_int (double_exponent x - 30) =
        2 powr (of_int (double_exponent x) - 30)" by simp
    also have "\<dots> = 2 powr of_int (double_exponent x) / 2 powr 30" by (rule powr_diff)
    finally show ?thesis by simp
  qed
  then have "to_double x / 2 ^ 30 = of_int m * 2 powr of_int (double_exponent x - 30)"
    by (simp add: y)
  with to_double_representable [OF m, of "double_exponent x - 30"] show ?thesis
    by simp
qed

lemma to_double_nonneg: "0 < x \<Longrightarrow> 0 \<le> to_double x"
proof -
  assume "0 < x"
  from to_double_significand [OF this]
  obtain m where y: "to_double x = of_int m * 2 powr of_int (double_exponent x)"
    and m: "2 ^ 52 \<le> m" by blast
  from m have "0 \<le> m" by (rule order_trans [rotated]) simp
  with y show ?thesis by simp
qed


lemma to_double_of_int:
  assumes "0 < n" "n < 2 ^ 53"
  shows "to_double (of_int n) = of_int n"
proof -
  let ?x = "of_int n :: real"
  from assms have xpos: "0 < ?x" by simp
  from assms(2) have "?x < of_int (2 ^ 53)" by (simp only: of_int_less_iff)
  then have xlt: "?x < 2 ^ 53" by simp
  define e where "e = double_exponent ?x"
  have "e \<le> 0"
  proof (rule ccontr)
    assume "\<not> e \<le> 0"
    then have "1 \<le> e" by simp
    then have "(2 :: real) powr 1 \<le> 2 powr of_int e"
      by (intro powr_mono) simp_all
    then have "2 ^ 53 \<le> 2 ^ 52 * (2 :: real) powr of_int e" by simp
    moreover from scaled_significand(1) [OF xpos]
    have "2 ^ 52 * (2 :: real) powr of_int e \<le> ?x"
      by (simp add: e_def le_divide_eq)
    ultimately show False using xlt by simp
  qed
  then obtain k where k: "e = - int k" by (metis nat_0_le neg_0_le_iff_le minus_minus)
  have p: "(2 :: real) powr of_int e = 1 / 2 ^ k"
    by (simp add: k powr_minus powr_realpow inverse_eq_divide)
  have "?x / 2 powr of_int e = of_int (n * 2 ^ k)"
    by (simp add: p)
  then have "round_half_even (?x / 2 powr of_int e) = n * 2 ^ k"
    by (simp only: round_half_even_of_int)
  with xpos show ?thesis
    by (simp add: to_double_def e_def [symmetric] p)
qed

lemma to_double_error:
  assumes "0 < x" "x < 2 ^ 50"
  shows "\<bar>to_double x - x\<bar> \<le> 1 / 16"
proof -
  define e where "e = double_exponent x"
  define t where "t = x / 2 powr of_int e"
  have x: "x = t * 2 powr of_int e" by (simp add: t_def)
  have "e \<le> - 3"
  proof (rule ccontr)
    assume "\<not> e \<le> - 3"
    then have "- 2 \<le> e" by simp
    then have "(2 :: real) powr (- 2) \<le> 2 powr of_int e"
      by (intro powr_mono) simp_all
    then have "1 / 4 \<le> (2 :: real) powr of_int e"
      by (simp add: powr_minus inverse_eq_divide)
    then have "2 ^ 52 * (1 / 4) \<le> 2 ^ 52 * (2 :: real) powr of_int e"
      by (intro mult_left_mono) simp_all
    moreover from scaled_significand(1) [OF assms(1)]
    have "2 ^ 52 * (2 :: real) powr of_int e \<le> x"
      by (simp add: e_def le_divide_eq)
    ultimately show False using assms(2) by simp
  qed
  then have "(2 :: real) powr of_int e \<le> 2 powr (- 3)"
    by (intro powr_mono) simp_all
  then have s: "(2 :: real) powr of_int e \<le> 1 / 8"
    by (simp add: powr_minus inverse_eq_divide)
  have td: "to_double x = of_int (round_half_even t) * 2 powr of_int e"
    using assms(1) by (simp add: to_double_def e_def t_def)
  have "to_double x - x = of_int (round_half_even t) * 2 powr of_int e - t * 2 powr of_int e"
    by (simp only: td x [symmetric])
  then have "to_double x - x = (of_int (round_half_even t) - t) * 2 powr of_int e"
    by (simp add: algebra_simps)
  then have "\<bar>to_double x - x\<bar> = \<bar>of_int (round_half_even t) - t\<bar> * 2 powr of_int e"
    by (simp add: abs_mult)
  also have "\<dots> \<le> (1 / 2) * (1 / 8)"
    using round_half_even_error [of t] s by (intro mult_mono) simp_all
  finally show ?thesis by simp
qed

text \<open>
  Rounding the tenth of a whole number below \<open>2^53\<close> never moves it across a multiple of
  \<open>2^30\<close>, so on whole-number readings below \<open>2^53\<close> bytes the budget computed in doubles
  is the truncated tenth of the product in GiB, with the floor of 1.
\<close>

lemma tenth_rounded_floor:
  fixes n :: int
  assumes "0 < n" "n < 2 ^ 53"
  shows "\<lfloor>to_double (of_int n / 10) / 2 ^ 30\<rfloor> = \<lfloor>(of_int n / 10 :: real) / 2 ^ 30\<rfloor>"
proof -
  define G :: int where "G = 10737418240"
  define k where "k = n div G"
  define r where "r = n mod G"
  have n: "n = G * k + r" and r: "0 \<le> r" "r < G"
    by (simp_all add: k_def r_def G_def)
  let ?x = "of_int n / 10 :: real"
  let ?y = "to_double ?x"
  from assms have xpos: "0 < ?x" by simp
  from assms(2) have "(of_int n :: real) < of_int (2 ^ 53)" by (simp only: of_int_less_iff)
  then have xlt: "?x < 2 ^ 50" by simp
  from to_double_error [OF xpos xlt]
  have lo: "?x - 1 / 16 \<le> ?y" and hi: "?y \<le> ?x + 1 / 16"
    by linarith+
  have xk: "?x = 2 ^ 30 * of_int k + of_int r / 10"
    by (simp add: n G_def)
  have kx: "\<lfloor>?x / 2 ^ 30\<rfloor> = k"
  proof (rule floor_unique)
    from r(1) show "of_int k \<le> ?x / 2 ^ 30" by (simp add: xk le_divide_eq)
    from r(2) have "(of_int r :: real) < of_int G" by (simp only: of_int_less_iff)
    then show "?x / 2 ^ 30 < of_int k + 1"
      by (simp add: xk divide_less_eq G_def algebra_simps)
  qed
  have "\<lfloor>?y / 2 ^ 30\<rfloor> = k"
  proof (rule floor_unique)
    show "of_int k \<le> ?y / 2 ^ 30"
    proof (cases "r = 0")
      case True
      with n assms(1) have kpos: "0 < G * k" by simp
      from n True assms(2) have klt: "G * k < 2 ^ 53" by simp
      have "0 < k" using kpos by (simp add: G_def zero_less_mult_iff)
      then have "0 < 2 ^ 30 * k" by simp
      moreover have "2 ^ 30 * k < 2 ^ 53" using klt \<open>0 < k\<close> by (simp add: G_def)
      ultimately have "to_double (of_int (2 ^ 30 * k)) = of_int (2 ^ 30 * k)"
        by (rule to_double_of_int)
      moreover have "?x = of_int (2 ^ 30 * k)" using True by (simp add: xk)
      ultimately have "?y = 2 ^ 30 * of_int k" by simp
      then show ?thesis by simp
    next
      case False
      with r(1) have "1 \<le> r" by simp
      then have "(of_int 1 :: real) \<le> of_int r" by (simp only: of_int_le_iff)
      then have "2 ^ 30 * of_int k + 1 / 10 \<le> ?x" by (simp add: xk)
      with lo have "2 ^ 30 * of_int k \<le> ?y" by linarith
      then show ?thesis by (simp add: le_divide_eq mult.commute)
    qed
    from r(2) have "r \<le> G - 1" by simp
    then have "(of_int r :: real) \<le> of_int (G - 1)" by (simp only: of_int_le_iff)
    then have "?x \<le> 2 ^ 30 * of_int k + 2 ^ 30 - 1 / 10" by (simp add: xk G_def)
    with hi have "?y < 2 ^ 30 * of_int k + 2 ^ 30" by linarith
    then have "?y < 2 ^ 30 * (of_int k + 1)" by (simp add: algebra_simps)
    then show "?y / 2 ^ 30 < of_int k + 1" by (simp add: divide_less_eq mult.commute)
  qed
  with kx show ?thesis by simp
qed

lemma static_cast_int_floor:
  "0 \<le> z \<Longrightarrow> \<lfloor>z\<rfloor> < 2 ^ 31 \<Longrightarrow> static_cast_int z = \<lfloor>z\<rfloor>"
proof -
  assume z: "0 \<le> z" and b: "\<lfloor>z\<rfloor> < 2 ^ 31"
  from z have "0 \<le> \<lfloor>z\<rfloor>" by simp
  then have "- (2 ^ 31) \<le> \<lfloor>z\<rfloor>" by (rule order_trans [rotated]) simp
  with z b show ?thesis by (simp add: static_cast_int_def)
qed

lemma cacheSizeGB_whole_readings:
  fixes p q :: int
  assumes "0 < p" "0 < q" "p * q < 2 ^ 53"
  shows "cacheSizeGB (of_int p) (of_int q) = max 1 \<lfloor>(of_int (q * p) / 10 :: real) / 2 ^ 30\<rfloor>"
    and "\<lfloor>(of_int (q * p) / 10 :: real) / 2 ^ 30\<rfloor> < 2 ^ 31"
proof -
  define n where "n = q * p"
  from assms have n: "0 < n" "n < 2 ^ 53" by (simp_all add: n_def mult.commute)
  let ?x = "of_int n / 10 :: real"
  define k where "k = \<lfloor>?x / 2 ^ 30\<rfloor>"
  from n have xpos: "0 < ?x" by simp
  have g: "(1024 * 1024 * 1024 :: real) = 2 ^ 30" by simp
  have d: "to_double (to_double ?x / 2 ^ 30) = to_double ?x / 2 ^ 30"
    using xpos by (rule to_double_div_pow2)
  have y0: "0 \<le> to_double ?x / 2 ^ 30"
    using to_double_nonneg [OF xpos] by simp
  have fl: "\<lfloor>to_double ?x / 2 ^ 30\<rfloor> = k"
    unfolding k_def using n by (rule tenth_rounded_floor)
  from n(2) have "(of_int n :: real) < of_int (2 ^ 53)" by (simp only: of_int_less_iff)
  then have "?x / 2 ^ 30 < 2 ^ 31" by simp
  then have kb: "k < 2 ^ 31" by (simp add: k_def floor_less_iff)
  then show "\<lfloor>(of_int (q * p) / 10 :: real) / 2 ^ 30\<rfloor> < 2 ^ 31"
    by (simp only: k_def n_def)
  have "static_cast_int (to_double (to_double ?x / 2 ^ 30)) =
      static_cast_int (to_double ?x / 2 ^ 30)"
    by (simp only: d)
  also have "\<dots> = \<lfloor>to_double ?x / 2 ^ 30\<rfloor>"
    using y0 kb by (intro static_cast_int_floor) (simp_all only: fl)
  finally have key: "static_cast_int (to_double (to_double ?x / 2 ^ 30)) = k"
    by (simp only: fl)
  have qp: "of_int q * of_int p = (of_int n :: real)" by (simp add: n_def)
  have tn: "to_double (of_int n) = of_int n" using n by (rule to_double_of_int)
  from assms(1,2) have pos: "(0 :: real) < of_int p \<and> (0 :: real) < of_int q" by simp
  have "cacheSizeGB (of_int p) (of_int q) = (if k < 1 then 1 else k)"
    using pos by (simp only: cacheSizeGB_def qp tn g Let_def key) simp
  also have "\<dots> = max 1 k" by (simp add: max_def)
  finally show "cacheSizeGB (of_int p) (of_int q) =
      max 1 \<lfloor>(of_int (q * p) / 10 :: real) / 2 ^ 30\<rfloor>"
    by (simp only: k_def n_def)
qed


subsection \<open>Opening the engine\<close>

lemma show_nat_digits: "show_nat n \<noteq> [] \<and> set (show_nat n) \<subseteq> set ''0123456789''"
proof (induction n rule: show_nat.induct)
  case (1 n)
  have d: "''0123456789'' ! k \<in> set ''0123456789''" if "k < 10" for k :: nat
    by (rule nth_mem) (use that in simp)
  show ?case
  proof (cases "n < 10")
    case True
    then show ?thesis
      using d [of n] by (subst show_nat.simps, subst (2) show_nat.simps) simp
  next
    case False
    have "n mod 10 < 10" by simp
    from d [OF this] False 1 show ?thesis
      by (subst show_nat.simps, subst (2) show_nat.simps) simp
  qed
qed

lemma cacheSizeGB_ge_1: "1 \<le> cacheSizeGB pageSize numPages"
  by (simp add: cacheSizeGB_def Let_def)

text \<open>
  Claim C6. For every path, extra options and durable flag, the configuration string
  passed to the open call is the comma-terminated sequence of the entries \<open>create\<close>,
  \<open>cache_size=<N>G\<close> with \<open>N\<close> the cache budget in decimal digits, \<open>session_max=20000\<close>,
  the \<open>extensions=[...]\<close> entry, \<open>statistics=(all)\<close>, the \<open>log=(...)\<close> entry exactly when
  durable, and the \<open>checkpoint=(wait=60,log_size=2GB)\<close> entry, in this order, followed by
  the caller's extra options verbatim. The path does not enter the string.
\<close>

theorem constructor_config_layout:
  "constructor_config pageSize numPages path extraOpenOptions dur =
     comma_separated
       ([''create'',
         ''cache_size='' @ show_int (cacheSizeGB pageSize numPages) @ ''G'',
         ''session_max=20000'',
         ''extensions=[local=(entry=index_collator_extension)]'',
         ''statistics=(all)'']
        @ (if dur then [''log=(enabled=true,archive=true,path=journal)''] else [])
        @ [''checkpoint=(wait=60,log_size=2GB)''])
     @ extraOpenOptions
   \<and> show_int (cacheSizeGB pageSize numPages) \<noteq> []
   \<and> set (show_int (cacheSizeGB pageSize numPages)) \<subseteq> set ''0123456789''"
proof -
  have "\<not> cacheSizeGB pageSize numPages < 0"
    using cacheSizeGB_ge_1 [of pageSize numPages] by simp
  then have "show_int (cacheSizeGB pageSize numPages) = show_nat (nat (cacheSizeGB pageSize numPages))"
    by (simp add: show_int_def)
  then show ?thesis
    using show_nat_digits [of "nat (cacheSizeGB pageSize numPages)"]
    by (simp add: constructor_config_def open_config_def comma_separated_def)
qed

text \<open>C6 on a machine with 320 GiB of memory, durable and not.\<close>

theorem constructor_config_layout_witness:
  "constructor_config 4096 83886080 ''/data/db'' ''foo=bar'' True =
     ''create,cache_size=32G,session_max=20000,extensions=[local=(entry=index_collator_extension)],statistics=(all),log=(enabled=true,archive=true,path=journal),checkpoint=(wait=60,log_size=2GB),foo=bar''
   \<and> constructor_config 4096 83886080 ''/data/db'' [] False =
     ''create,cache_size=32G,session_max=20000,extensions=[local=(entry=index_collator_extension)],statistics=(all),checkpoint=(wait=60,log_size=2GB),''"
proof -
  have "cacheSizeGB (of_int 4096) (of_int 83886080) = 32"
    by (subst cacheSizeGB_whole_readings) simp_all
  then have n: "show_int (cacheSizeGB 4096 83886080) = ''32''"
    by (simp add: show_int_def)
  show ?thesis
    using constructor_config_layout [of 4096 83886080 "''/data/db''" "''foo=bar''" True]
      constructor_config_layout [of 4096 83886080 "''/data/db''" "[]" False]
    by (simp add: n comma_separated_def)
qed




subsection \<open>Size storer and flushing\<close>

text \<open>
  Claim C5. With a size storer present, a flush whose write meets a write conflict
  returns normally, neither failing nor terminating the process. Nothing else is treated
  this way: any other exception leaves the function, and a non-zero return code of the
  transaction's begin or commit fails the invariant.
\<close>

theorem syncSizeInfo_swallows_write_conflict_only:
  assumes "sizeStorer e = Some ss"
    and "wt_begin_transaction api (conn e) ''sync=true'' = (rc1, c1)"
    and "storeInto api c1 ss (sizeStorerUri e) = (thrown, c2)"
    and "wt_commit_transaction api c2 = (rc3, c3)"
  shows "(rc1 = 0 \<and> thrown = Some WriteConflictException \<longrightarrow>
            syncSizeInfo api e = Inr (e\<lparr>conn := c2\<rparr>))
       \<and> (\<forall>x. rc1 = 0 \<and> thrown = Some x \<and> x \<noteq> WriteConflictException \<longrightarrow>
            syncSizeInfo api e = Inl (Uncaught x))
       \<and> (rc1 \<noteq> 0 \<longrightarrow> syncSizeInfo api e = Inl (InvariantFailed rc1))
       \<and> (rc1 = 0 \<and> thrown = None \<and> rc3 \<noteq> 0 \<longrightarrow>
            syncSizeInfo api e = Inl (InvariantFailed rc3))
       \<and> (rc1 = 0 \<and> thrown = None \<and> rc3 = 0 \<longrightarrow>
            syncSizeInfo api e = Inr (e\<lparr>conn := c3\<rparr>))"
  using assms
  by (auto simp add: syncSizeInfo_def invariantWTOK_def split: exn.splits)

text \<open>C5 on the small engine with a conflicting size-storer write.\<close>

theorem syncSizeInfo_swallows_write_conflict_only_witness:
  "sizeStorer (toy_engine0\<lparr>conn := toy_conn0\<lparr>conflicting := True\<rparr>\<rparr>) = Some Map.empty
   \<and> storeInto toy_api (toy_conn0\<lparr>conflicting := True\<rparr>) Map.empty
        (sizeStorerUri (toy_engine0\<lparr>conn := toy_conn0\<lparr>conflicting := True\<rparr>\<rparr>)) =
       (Some WriteConflictException, toy_conn0\<lparr>conflicting := True\<rparr>)
   \<and> syncSizeInfo toy_api (toy_engine0\<lparr>conn := toy_conn0\<lparr>conflicting := True\<rparr>\<rparr>) =
       Inr (toy_engine0\<lparr>conn := toy_conn0\<lparr>conflicting := True\<rparr>\<rparr>)"
proof -
  let ?c = "toy_conn0\<lparr>conflicting := True\<rparr>"
  let ?e = "toy_engine0\<lparr>conn := ?c\<rparr>"
  have a: "sizeStorer ?e = Some Map.empty"
    by (simp add: toy_engine0_def)
  have b: "wt_begin_transaction toy_api (conn ?e) ''sync=true'' = (0, ?c)"
    by (simp add: toy_api_def)
  have c: "storeInto toy_api ?c Map.empty (sizeStorerUri ?e) = (Some WriteConflictException, ?c)"
    by (simp add: toy_api_def)
  have d: "wt_commit_transaction toy_api ?c = (0, ?c)"
    by (simp add: toy_api_def)
  show ?thesis
    using a c syncSizeInfo_swallows_write_conflict_only [OF a b c d]
    by simp
qed

text \<open>
  Claim C8. \<open>flushAllFiles\<close> does the same for \<open>sync\<close> true and false. Whenever it returns,
  it returns 1 after the size storer flush followed by a checkpoint that the engine
  accepted; and whenever the flush returns and the checkpoint is accepted, it returns 1.
\<close>

theorem flushAllFiles_ignores_sync:
  "flushAllFiles api True e = flushAllFiles api False e
   \<and> (\<forall>n e'. flushAllFiles api sync e = Inr (n, e') \<longrightarrow>
         n = 1 \<and> (\<exists>e1 c'. syncSizeInfo api e = Inr e1
                    \<and> wt_checkpoint api (conn e1) = (0, c') \<and> e' = e1\<lparr>conn := c'\<rparr>))
   \<and> (\<forall>e1 c'. syncSizeInfo api e = Inr e1 \<and> wt_checkpoint api (conn e1) = (0, c') \<longrightarrow>
         flushAllFiles api sync e = Inr (1, e1\<lparr>conn := c'\<rparr>))"
  by (auto simp add: flushAllFiles_def invariantWTOK_def split: sum.splits prod.splits if_splits)

text \<open>C8 on the small engine: both values of \<open>sync\<close> give one checkpoint and 1.\<close>

theorem flushAllFiles_ignores_sync_witness:
  "syncSizeInfo toy_api toy_engine0 = Inr toy_engine0
   \<and> wt_checkpoint toy_api (conn toy_engine0) = (0, toy_conn0\<lparr>checkpoints := 1\<rparr>)
   \<and> flushAllFiles toy_api True toy_engine0 = Inr (1, toy_engine0\<lparr>conn := toy_conn0\<lparr>checkpoints := 1\<rparr>\<rparr>)
   \<and> flushAllFiles toy_api False toy_engine0 = Inr (1, toy_engine0\<lparr>conn := toy_conn0\<lparr>checkpoints := 1\<rparr>\<rparr>)"
proof -
  have s: "syncSizeInfo toy_api toy_engine0 = Inr toy_engine0"
    by (simp add: syncSizeInfo_def toy_api_def toy_engine0_def toy_conn0_def invariantWTOK_def)
  have k: "wt_checkpoint toy_api (conn toy_engine0) = (0, toy_conn0\<lparr>checkpoints := 1\<rparr>)"
    by (simp add: toy_api_def toy_engine0_def toy_conn0_def)
  from flushAllFiles_ignores_sync [of toy_api toy_engine0 True] s k
  have "flushAllFiles toy_api True toy_engine0 = Inr (1, toy_engine0\<lparr>conn := toy_conn0\<lparr>checkpoints := 1\<rparr>\<rparr>)"
    by blast
  moreover from flushAllFiles_ignores_sync [of toy_api toy_engine0 False] s k
  have "flushAllFiles toy_api False toy_engine0 = Inr (1, toy_engine0\<lparr>conn := toy_conn0\<lparr>checkpoints := 1\<rparr>\<rparr>)"
    by blast
  ultimately show ?thesis using s k by simp
qed

lemma syncSizeInfo_changes_conn_only:
  "syncSizeInfo api e = Inr e' \<Longrightarrow> e' = e\<lparr>conn := conn e'\<rparr>"
  by (auto simp add: syncSizeInfo_def split: option.splits prod.splits sum.splits exn.splits)

text \<open>
  Claim C10. \<open>okToRename\<close> returns no status but OK. It first stores the record store's
  record count and data size under the ident's uri and then runs the size storer flush on
  the updated storer: its result is the result of that flush, with status OK when the
  flush returns. When the engine accepts the flush's transaction, the call returns OK
  with the updated storer written.
\<close>

theorem okToRename_stores_and_flushes:
  "(\<forall>s e'. okToRename api fromNS toNS ident rs e = Inr (s, e') \<longrightarrow>
       s = Status_OK
       \<and> (\<exists>ss'. sizeStorer e' = Some ss'
             \<and> ss' (uri_of ident) = Some (numRecords rs, dataSize rs)))
   \<and> (\<forall>ss. sizeStorer e = Some ss \<longrightarrow>
       okToRename api fromNS toNS ident rs e =
         map_sum id (Pair Status_OK)
           (syncSizeInfo api
              (e\<lparr>sizeStorer := Some (ss(uri_of ident \<mapsto> (numRecords rs, dataSize rs)))\<rparr>)))
   \<and> (\<forall>ss c1 c2 c3.
         sizeStorer e = Some ss
         \<and> wt_begin_transaction api (conn e) ''sync=true'' = (0, c1)
         \<and> storeInto api c1 (ss(uri_of ident \<mapsto> (numRecords rs, dataSize rs))) (sizeStorerUri e)
             = (None, c2)
         \<and> wt_commit_transaction api c2 = (0, c3) \<longrightarrow>
       okToRename api fromNS toNS ident rs e =
         Inr (Status_OK,
              e\<lparr>sizeStorer := Some (ss(uri_of ident \<mapsto> (numRecords rs, dataSize rs))),
                conn := c3\<rparr>))"
proof -
  have ret: "\<forall>s e'. okToRename api fromNS toNS ident rs e = Inr (s, e') \<longrightarrow>
       s = Status_OK
       \<and> (\<exists>ss'. sizeStorer e' = Some ss'
             \<and> ss' (uri_of ident) = Some (numRecords rs, dataSize rs))"
  proof (intro allI impI)
    fix s e'
    assume r: "okToRename api fromNS toNS ident rs e = Inr (s, e')"
    then obtain ss where ss: "sizeStorer e = Some ss"
      by (auto simp add: okToRename_def split: option.splits)
    let ?e1 = "e\<lparr>sizeStorer := Some (store ss (uri_of ident) (numRecords rs) (dataSize rs))\<rparr>"
    from r ss have s: "s = Status_OK" and f: "syncSizeInfo api ?e1 = Inr e'"
      by (auto simp add: okToRename_def split: sum.splits)
    from syncSizeInfo_changes_conn_only [OF f] have "e' = ?e1\<lparr>conn := conn e'\<rparr>" .
    then have "sizeStorer e' = sizeStorer (?e1\<lparr>conn := conn e'\<rparr>)" by simp
    then have "sizeStorer e' = Some (store ss (uri_of ident) (numRecords rs) (dataSize rs))"
      by simp
    with s show "s = Status_OK
         \<and> (\<exists>ss'. sizeStorer e' = Some ss'
               \<and> ss' (uri_of ident) = Some (numRecords rs, dataSize rs))"
      by (simp add: store_def)
  qed
  have seq: "\<forall>ss. sizeStorer e = Some ss \<longrightarrow>
       okToRename api fromNS toNS ident rs e =
         map_sum id (Pair Status_OK)
           (syncSizeInfo api
              (e\<lparr>sizeStorer := Some (ss(uri_of ident \<mapsto> (numRecords rs, dataSize rs)))\<rparr>))"
    by (simp add: okToRename_def store_def split: sum.splits)
  have ok: "\<forall>ss c1 c2 c3.
         sizeStorer e = Some ss
         \<and> wt_begin_transaction api (conn e) ''sync=true'' = (0, c1)
         \<and> storeInto api c1 (ss(uri_of ident \<mapsto> (numRecords rs, dataSize rs))) (sizeStorerUri e)
             = (None, c2)
         \<and> wt_commit_transaction api c2 = (0, c3) \<longrightarrow>
       okToRename api fromNS toNS ident rs e =
         Inr (Status_OK,
              e\<lparr>sizeStorer := Some (ss(uri_of ident \<mapsto> (numRecords rs, dataSize rs))),
                conn := c3\<rparr>)"
    by (simp add: okToRename_def store_def syncSizeInfo_def invariantWTOK_def)
  from ret seq ok show ?thesis by (intro conjI)
qed

text \<open>C10 on the small engine: the entry reaches the persisted table.\<close>

theorem okToRename_stores_and_flushes_witness:
  "okToRename toy_api ''db.a'' ''db.b'' ''r1'' \<lparr>numRecords = 3, dataSize = 120\<rparr> toy_engine0 =
     Inr (Status_OK,
          toy_engine0\<lparr>sizeStorer := Some [''table:r1'' \<mapsto> (3, 120)],
                      conn := toy_conn0\<lparr>persisted := [''table:r1'' \<mapsto> (3, 120)]\<rparr>\<rparr>)"
proof -
  let ?ss = "[''table:r1'' \<mapsto> (3::int, 120::int)]"
  have a: "sizeStorer toy_engine0 = Some Map.empty"
    by (simp add: toy_engine0_def)
  have b: "wt_begin_transaction toy_api (conn toy_engine0) ''sync=true'' = (0, toy_conn0)"
    by (simp add: toy_api_def toy_engine0_def)
  have c: "storeInto toy_api toy_conn0 ?ss (sizeStorerUri toy_engine0) =
             (None, toy_conn0\<lparr>persisted := ?ss\<rparr>)"
    by (simp add: toy_api_def toy_conn0_def)
  have d: "wt_commit_transaction toy_api (toy_conn0\<lparr>persisted := ?ss\<rparr>) =
             (0, toy_conn0\<lparr>persisted := ?ss\<rparr>)"
    by (simp add: toy_api_def)
  note t = okToRename_stores_and_flushes
      [of toy_api "''db.a''" "''db.b''" "''r1''" "\<lparr>numRecords = 3, dataSize = 120\<rparr>" toy_engine0,
       THEN conjunct2, THEN conjunct2, THEN spec, of Map.empty, THEN spec, of toy_conn0,
       THEN spec, of "toy_conn0\<lparr>persisted := ?ss\<rparr>",
       THEN spec, of "toy_conn0\<lparr>persisted := ?ss\<rparr>"]
  show ?thesis
    using t a b c d by (simp add: uri_of_def)
qed

subsection \<open>Record store construction\<close>

text \<open>
  Claim C9. For capped options, the record store is built capped, with maximum size
  4096 when \<open>cappedSize\<close> is 0 and maximum document count -1 when \<open>cappedMaxDocs\<close> is 0,
  and with the given values otherwise; for uncapped options it is built uncapped with
  both limits -1.
\<close>

theorem getRecordStore_capped_defaults:
  "(capped options \<longrightarrow>
      rs_isCapped (getRecordStore ns ident options e)
      \<and> rs_cappedMaxSize (getRecordStore ns ident options e) =
          (if cappedSize options = 0 then 4096 else cappedSize options)
      \<and> rs_cappedMaxDocs (getRecordStore ns ident options e) =
          (if cappedMaxDocs options = 0 then - 1 else cappedMaxDocs options))
   \<and> (\<not> capped options \<longrightarrow>
      \<not> rs_isCapped (getRecordStore ns ident options e)
      \<and> rs_cappedMaxSize (getRecordStore ns ident options e) = - 1
      \<and> rs_cappedMaxDocs (getRecordStore ns ident options e) = - 1)
   \<and> rs_ns (getRecordStore ns ident options e) = ns
   \<and> rs_uri (getRecordStore ns ident options e) = uri_of ident"
  by (simp add: getRecordStore_def)

text \<open>C9 at unset limits, at given limits, and uncapped.\<close>

theorem getRecordStore_capped_defaults_witness:
  "rs_isCapped (getRecordStore ''db.c'' ''r1'' \<lparr>capped = True, cappedSize = 0, cappedMaxDocs = 0\<rparr> toy_engine0)
   \<and> rs_cappedMaxSize (getRecordStore ''db.c'' ''r1'' \<lparr>capped = True, cappedSize = 0, cappedMaxDocs = 0\<rparr> toy_engine0) = 4096
   \<and> rs_cappedMaxDocs (getRecordStore ''db.c'' ''r1'' \<lparr>capped = True, cappedSize = 0, cappedMaxDocs = 0\<rparr> toy_engine0) = - 1
   \<and> rs_cappedMaxSize (getRecordStore ''db.c'' ''r1'' \<lparr>capped = True, cappedSize = 8192, cappedMaxDocs = 100\<rparr> toy_engine0) = 8192
   \<and> rs_cappedMaxDocs (getRecordStore ''db.c'' ''r1'' \<lparr>capped = True, cappedSize = 8192, cappedMaxDocs = 100\<rparr> toy_engine0) = 100
   \<and> \<not> rs_isCapped (getRecordStore ''db.c'' ''r1'' \<lparr>capped = False, cappedSize = 8192, cappedMaxDocs = 100\<rparr> toy_engine0)
   \<and> rs_cappedMaxSize (getRecordStore ''db.c'' ''r1'' \<lparr>capped = False, cappedSize = 8192, cappedMaxDocs = 100\<rparr> toy_engine0) = - 1
   \<and> rs_cappedMaxDocs (getRecordStore ''db.c'' ''r1'' \<lparr>capped = False, cappedSize = 8192, cappedMaxDocs = 100\<rparr> toy_engine0) = - 1"
  using getRecordStore_capped_defaults [of "\<lparr>capped = True, cappedSize = 0, cappedMaxDocs = 0\<rparr>" "''db.c''" "''r1''" toy_engine0]
    getRecordStore_capped_defaults [of "\<lparr>capped = True, cappedSize = 8192, cappedMaxDocs = 100\<rparr>" "''db.c''" "''r1''" toy_engine0]
    getRecordStore_capped_defaults [of "\<lparr>capped = False, cappedSize = 8192, cappedMaxDocs = 100\<rparr>" "''db.c''" "''r1''" toy_engine0]
  by simp

subsection \<open>Drops and the deferred-drop queue\<close>

text \<open>
  Claim C1. When the forced drop issued by \<open>dropRecordStore\<close> or
  \<open>dropSortedDataInterface\<close> answers \<open>EBUSY\<close>, the uri joins the pending set, the epoch
  grows by one and the idle session pool is emptied; when it answers 0, nothing is
  queued. In both cases the call returns the OK status.
\<close>

theorem drop_busy_is_deferred:
  assumes "wt_drop api (conn e) (uri_of ident) ''force'' = (ret, c')"
  shows "(ret = EBUSY \<longrightarrow>
            dropRecordStore api ident e =
              Inr (Status_OK, e\<lparr>conn := c',
                                 identToDrop := finsert (uri_of ident) (identToDrop e),
                                 epoch := epoch e + 1,
                                 sessionPool := []\<rparr>)
          \<and> dropSortedDataInterface api ident e = dropRecordStore api ident e)
       \<and> (ret = 0 \<longrightarrow>
            dropRecordStore api ident e = Inr (Status_OK, e\<lparr>conn := c'\<rparr>)
          \<and> dropSortedDataInterface api ident e = dropRecordStore api ident e)"
  using assms
  by (simp add: dropRecordStore_def dropSortedDataInterface_def drop_ident_def EBUSY_def
      closeAll_def)

text \<open>C1 on the small engine: \<open>r1\<close> is still referenced, \<open>r2\<close> is not.\<close>

theorem drop_busy_is_deferred_witness:
  "wt_drop toy_api (conn toy_engine0) (uri_of ''r1'') ''force'' = (EBUSY, toy_conn0)
   \<and> dropRecordStore toy_api ''r1'' toy_engine0 =
       Inr (Status_OK, toy_engine0\<lparr>identToDrop := {|''table:r1''|}, epoch := 8, sessionPool := []\<rparr>)
   \<and> dropSortedDataInterface toy_api ''r1'' toy_engine0 =
       Inr (Status_OK, toy_engine0\<lparr>identToDrop := {|''table:r1''|}, epoch := 8, sessionPool := []\<rparr>)
   \<and> wt_drop toy_api (conn toy_engine0) (uri_of ''r2'') ''force'' =
       (0, toy_conn0\<lparr>tables := [''table:r1'', ''table:sizeStorer'']\<rparr>)
   \<and> dropRecordStore toy_api ''r2'' toy_engine0 =
       Inr (Status_OK, toy_engine0\<lparr>conn := toy_conn0\<lparr>tables := [''table:r1'', ''table:sizeStorer'']\<rparr>\<rparr>)"
proof -
  have busy: "wt_drop toy_api (conn toy_engine0) (uri_of ''r1'') ''force'' = (EBUSY, toy_conn0)"
    by (simp add: toy_api_def toy_engine0_def toy_conn0_def uri_of_def)
  have gone: "wt_drop toy_api (conn toy_engine0) (uri_of ''r2'') ''force'' =
       (0, toy_conn0\<lparr>tables := [''table:r1'', ''table:sizeStorer'']\<rparr>)"
    by (simp add: toy_api_def toy_engine0_def toy_conn0_def uri_of_def)
  show ?thesis
    using busy gone drop_busy_is_deferred [OF busy] drop_busy_is_deferred [OF gone]
    by (simp add: EBUSY_def toy_engine0_def uri_of_def)
qed

lemma distinct_sorted_list_of_fset: "distinct (sorted_list_of_fset S)"
  by (simp add: sorted_list_of_fset.rep_eq)

lemma drop_each_names: "drop_each api c xs = (rs, c') \<Longrightarrow> map fst rs = xs"
  by (induction xs arbitrary: c rs) (auto split: prod.splits)

lemma dropAllQueued_erase_eq: "dropAllQueued_erase xs pending = pending |-| fset_of_list xs"
  by (induction xs arbitrary: pending) auto

lemma dropAllQueued_drops_ok:
  "drop_each api c xs = (rs, c') \<Longrightarrow> \<forall>(u, r) \<in> set rs. r = 0 \<or> r = EBUSY \<Longrightarrow>
   dropAllQueued_drops api xs c deleted =
     Inr (c', deleted |\<union>| fset_of_list (map fst (filter (\<lambda>(u, r). r = 0) rs)))"
proof (induction xs arbitrary: c rs c' deleted)
  case Nil
  then show ?case by simp
next
  case (Cons uri rest)
  obtain ret c1 where d: "wt_drop api c uri ''force'' = (ret, c1)"
    by (cases "wt_drop api c uri ''force''")
  obtain rs1 c2 where e: "drop_each api c1 rest = (rs1, c2)"
    by (cases "drop_each api c1 rest")
  from Cons.prems(1) d e have rs: "rs = (uri, ret) # rs1" and c': "c2 = c'"
    by simp_all
  from Cons.prems(2) rs have ret: "ret = 0 \<or> ret = EBUSY"
    and rest: "\<forall>(u, r) \<in> set rs1. r = 0 \<or> r = EBUSY"
    by simp_all
  note ih = Cons.IH [OF e [unfolded c'] rest]
  from ret show ?case
  proof
    assume "ret = 0"
    with d rs c' ih [of "finsert uri deleted"] show ?thesis by simp
  next
    assume "ret = EBUSY"
    with d rs c' ih [of deleted] show ?thesis by (simp add: EBUSY_def)
  qed
qed

lemma dropAllQueued_drops_fatal:
  "drop_each api c xs = (rs, c') \<Longrightarrow> \<not> (\<forall>(u, r) \<in> set rs. r = 0 \<or> r = EBUSY) \<Longrightarrow>
   \<exists>r. r \<in> snd ` set rs \<and> r \<noteq> 0 \<and> r \<noteq> EBUSY
       \<and> dropAllQueued_drops api xs c deleted = Inl (InvariantFailed r)"
proof (induction xs arbitrary: c rs c' deleted)
  case Nil
  then show ?case by simp
next
  case (Cons uri rest)
  obtain ret c1 where d: "wt_drop api c uri ''force'' = (ret, c1)"
    by (cases "wt_drop api c uri ''force''")
  obtain rs1 c2 where e: "drop_each api c1 rest = (rs1, c2)"
    by (cases "drop_each api c1 rest")
  from Cons.prems(1) d e have rs: "rs = (uri, ret) # rs1"
    by simp
  show ?case
  proof (cases "ret = 0 \<or> ret = EBUSY")
    case True
    with Cons.prems(2) rs have "\<not> (\<forall>(u, r) \<in> set rs1. r = 0 \<or> r = EBUSY)"
      by auto
    from Cons.IH [OF e this, of deleted] Cons.IH [OF e this, of "finsert uri deleted"] True d rs
    show ?thesis
      by (auto simp add: EBUSY_def)
  next
    case False
    with d rs show ?thesis
      by (auto simp add: invariantWTOK_def)
  qed
qed

text \<open>
  Claim C3. Let \<open>rs\<close> be the engine's answers when a forced drop of every pending name is
  attempted in turn. Every pending name is among them. If every answer is 0 or \<open>EBUSY\<close>,
  \<open>dropAllQueued\<close> returns with the connection in the state after all these attempts and
  with exactly the names answered 0 removed from the pending set; a name answered
  \<open>EBUSY\<close> is still pending. If some answer is neither, the invariant fails on such an
  answer.
\<close>

theorem dropAllQueued_retries_pending:
  assumes "drop_each api (conn e) (sorted_list_of_fset (identToDrop e)) = (rs, c')"
  shows "map fst rs = sorted_list_of_fset (identToDrop e)
       \<and> ((\<forall>(u, r) \<in> set rs. r = 0 \<or> r = EBUSY) \<longrightarrow>
            dropAllQueued api e =
              Inr (e\<lparr>conn := c',
                     identToDrop := ffilter (\<lambda>u. (u, 0) \<notin> set rs) (identToDrop e)\<rparr>)
            \<and> (\<forall>u. (u, EBUSY) \<in> set rs \<longrightarrow>
                  u |\<in>| ffilter (\<lambda>u. (u, 0) \<notin> set rs) (identToDrop e)))
       \<and> (\<not> (\<forall>(u, r) \<in> set rs. r = 0 \<or> r = EBUSY) \<longrightarrow>
            (\<exists>r. r \<in> snd ` set rs \<and> r \<noteq> 0 \<and> r \<noteq> EBUSY
                \<and> dropAllQueued api e = Inl (InvariantFailed r)))"
proof -
  let ?mine = "sorted_list_of_fset (identToDrop e)"
  have names: "map fst rs = ?mine"
    using assms by (rule drop_each_names)
  have ok: "dropAllQueued api e =
              Inr (e\<lparr>conn := c',
                     identToDrop := ffilter (\<lambda>u. (u, 0) \<notin> set rs) (identToDrop e)\<rparr>)
            \<and> (\<forall>u. (u, EBUSY) \<in> set rs \<longrightarrow>
                  u |\<in>| ffilter (\<lambda>u. (u, 0) \<notin> set rs) (identToDrop e))"
    if all: "\<forall>(u, r) \<in> set rs. r = 0 \<or> r = EBUSY"
  proof
    let ?deleted = "fset_of_list (map fst (filter (\<lambda>(u, r). r = 0) rs))"
    have "dropAllQueued_drops api ?mine (conn e) {||} = Inr (c', {||} |\<union>| ?deleted)"
      using assms all by (rule dropAllQueued_drops_ok)
    then have run: "dropAllQueued api e =
        Inr (e\<lparr>conn := c', identToDrop := identToDrop e |-| ?deleted\<rparr>)"
      by (simp add: dropAllQueued_def dropAllQueued_erase_eq)
    have "identToDrop e |-| ?deleted = ffilter (\<lambda>u. (u, 0) \<notin> set rs) (identToDrop e)"
      by (rule fset_eqI) (force simp add: fset_of_list.rep_eq)
    with run show "dropAllQueued api e =
        Inr (e\<lparr>conn := c', identToDrop := ffilter (\<lambda>u. (u, 0) \<notin> set rs) (identToDrop e)\<rparr>)"
      by simp
    have dist: "distinct (map fst rs)"
      using names by (simp add: distinct_sorted_list_of_fset)
    show "\<forall>u. (u, EBUSY) \<in> set rs \<longrightarrow>
            u |\<in>| ffilter (\<lambda>u. (u, 0) \<notin> set rs) (identToDrop e)"
    proof (intro allI impI)
      fix u
      assume busy: "(u, EBUSY) \<in> set rs"
      then have "u \<in> set (map fst rs)" by force
      with names have mem: "u |\<in>| identToDrop e" by simp
      have "(u, 0) \<notin> set rs"
      proof
        assume "(u, 0) \<in> set rs"
        with dist busy have "EBUSY = 0" by (rule eq_key_imp_eq_value)
        then show False by (simp add: EBUSY_def)
      qed
      with mem show "u |\<in>| ffilter (\<lambda>u. (u, 0) \<notin> set rs) (identToDrop e)" by simp
    qed
  qed
  have fatal: "\<exists>r. r \<in> snd ` set rs \<and> r \<noteq> 0 \<and> r \<noteq> EBUSY
                \<and> dropAllQueued api e = Inl (InvariantFailed r)"
    if bad: "\<not> (\<forall>(u, r) \<in> set rs. r = 0 \<or> r = EBUSY)"
  proof -
    from dropAllQueued_drops_fatal [OF assms bad, of "{||}"]
    obtain r where "r \<in> snd ` set rs" "r \<noteq> 0" "r \<noteq> EBUSY"
      and "dropAllQueued_drops api ?mine (conn e) {||} = Inl (InvariantFailed r)"
      by blast
    then show ?thesis by (auto simp add: dropAllQueued_def)
  qed
  from names ok fatal show ?thesis by blast
qed

text \<open>C3 on the small engine: \<open>r1\<close> stays queued, \<open>r2\<close> goes; a failing name is fatal.\<close>

theorem dropAllQueued_retries_pending_witness:
  "drop_each toy_api (conn toy_engine_queued)
       (sorted_list_of_fset (identToDrop toy_engine_queued)) =
     ([(''table:r1'', EBUSY), (''table:r2'', 0)],
      toy_conn0\<lparr>tables := [''table:r1'', ''table:sizeStorer'']\<rparr>)
   \<and> dropAllQueued toy_api toy_engine_queued =
       Inr (toy_engine_queued\<lparr>conn := toy_conn0\<lparr>tables := [''table:r1'', ''table:sizeStorer'']\<rparr>,
                              identToDrop := {|''table:r1''|}\<rparr>)
   \<and> drop_each toy_api (conn toy_engine_corrupt)
       (sorted_list_of_fset (identToDrop toy_engine_corrupt)) =
     ([(''table:corrupt'', 5), (''table:r2'', 0)],
      toy_conn0\<lparr>tables := [''table:r1'', ''table:sizeStorer'']\<rparr>)
   \<and> dropAllQueued toy_api toy_engine_corrupt = Inl (InvariantFailed 5)"
proof -
  have s1: "sorted_list_of_fset {|''table:r2'', ''table:r1''|} = [''table:r1'', ''table:r2'']"
    by code_simp
  have s2: "sorted_list_of_fset {|''table:r2'', ''table:corrupt''|} =
      [''table:corrupt'', ''table:r2'']"
    by code_simp
  have d1: "drop_each toy_api (conn toy_engine_queued)
       (sorted_list_of_fset (identToDrop toy_engine_queued)) =
     ([(''table:r1'', EBUSY), (''table:r2'', 0)],
      toy_conn0\<lparr>tables := [''table:r1'', ''table:sizeStorer'']\<rparr>)"
    by (simp add: toy_engine_queued_def toy_engine0_def s1 toy_api_def toy_conn0_def)
  have d2: "drop_each toy_api (conn toy_engine_corrupt)
       (sorted_list_of_fset (identToDrop toy_engine_corrupt)) =
     ([(''table:corrupt'', 5), (''table:r2'', 0)],
      toy_conn0\<lparr>tables := [''table:r1'', ''table:sizeStorer'']\<rparr>)"
    by (simp add: toy_engine_corrupt_def toy_engine0_def s2 toy_api_def toy_conn0_def)
  have f: "ffilter (\<lambda>u. u \<noteq> ''table:r2'') {|''table:r2'', ''table:r1''|} = {|''table:r1''|}"
    by (rule fset_eqI) auto
  have "dropAllQueued toy_api toy_engine_queued =
       Inr (toy_engine_queued\<lparr>conn := toy_conn0\<lparr>tables := [''table:r1'', ''table:sizeStorer'']\<rparr>,
                              identToDrop := {|''table:r1''|}\<rparr>)"
    using dropAllQueued_retries_pending [OF d1]
    by (simp add: EBUSY_def toy_engine_queued_def f)
  moreover have "dropAllQueued toy_api toy_engine_corrupt = Inl (InvariantFailed 5)"
    using dropAllQueued_retries_pending [OF d2]
    by (auto simp add: EBUSY_def)
  ultimately show ?thesis using d1 d2 by simp
qed

end
